theory Spec2Isabelle
  imports Main
begin

section \<open>Python values used by MFDataset.py\<close>

text \<open>
  Exceptions are values: the class name, the message (or its format string) and the
  arguments of the \<open>%\<close> operator, kept unformatted. The class \<open>MFDatasetError\<close> is used
  by the module but declared nowhere in the file; it is taken as the module's own
  exception class.
\<close>

datatype pyarg =
    AStr string
  | ADims "string list"
  | AShape "nat list"
  | ANat nat

datatype pyerr = PyErr (exc_class: string) (exc_format: string) (exc_args: "pyarg list")

text \<open>
  A slice with its three bounds. Every slice the module uses has integer bounds: the
  \<open>slice(None, None, None)\<close> that first stands at \<open>newSlice[0]\<close> is overwritten
  before each read.
\<close>

datatype pyslice = Slice int int int

text \<open>
  \<open>list.__getitem__(slice(start, stop, step))\<close>, following \<open>PySlice_GetIndicesEx\<close>:
  a negative bound counts from the end, both bounds are clipped to the list, and the
  items are \<open>start, start + step, ...\<close>. C's division truncates; it is only applied
  where the quotient is not negative, where it agrees with \<open>div\<close>.
\<close>

definition clip_index :: "int \<Rightarrow> int \<Rightarrow> int \<Rightarrow> int" where
  "clip_index i step len =
     (let i1 = (if i < 0 then i + len else i);
          i2 = (if i1 < 0 then (if step < 0 then - 1 else 0) else i1)
      in if i2 \<ge> len then (if step < 0 then len - 1 else len) else i2)"

definition slice_length :: "int \<Rightarrow> int \<Rightarrow> int \<Rightarrow> int" where
  "slice_length start stop step =
     (if (step < 0 \<and> stop \<ge> start) \<or> (step > 0 \<and> start \<ge> stop) then 0
      else if step < 0 then (stop - start + 1) div step + 1
      else (stop - start - 1) div step + 1)"

definition slice_positions :: "pyslice \<Rightarrow> nat \<Rightarrow> nat list" where
  "slice_positions sl len =
     (case sl of Slice a b c \<Rightarrow>
        (let start = clip_index a c (int len);
             stop = clip_index b c (int len)
         in map (\<lambda>i. nat (start + int i * c)) [0..<nat (slice_length start stop c)]))"

definition list_getslice :: "'a list \<Rightarrow> pyslice \<Rightarrow> pyerr + 'a list" where
  "list_getslice xs sl =
     (case sl of Slice a b c \<Rightarrow>
        if c = 0 then Inl (PyErr ''ValueError'' ''slice step cannot be zero'' [])
        else Inr (map (\<lambda>p. xs ! p) (slice_positions sl (length xs))))"

section \<open>The single-file collaborator\<close>

text \<open>
  A dimension, a variable and a dataset of \<open>netCDF4_classic\<close>, as far as the module
  reads them. A variable carries its records (the entries along axis 0).
\<close>

record ncdim =
  isunlimited :: bool
  dimlen :: nat

record 'a ncvar =
  nc_dimensions :: "string list"
  nc_shape :: "nat list"
  nc_dtype :: string
  nc_records :: "'a list"
  nc_varattrs :: "(string \<times> string) list"

record 'a ncfile =
  nc_dims :: "(string \<times> ncdim) list"
  nc_variables :: "(string \<times> 'a ncvar) list"
  nc_attrs :: "(string \<times> string) list"
  nc_file_format :: string

text \<open>
  Modelled from the spec: \<open>netCDF4_classic.Variable.__getitem__\<close> is not in the file.
  Per the collaborator contract (\<open>var.read(startCountStridePerAxis) -> array\<close>) the
  first slice selects records like a Python slice and the remaining slices act on
  every selected record in the same way, through the parameter \<open>sel\<close>.
\<close>

definition nc_getitem ::
  "(pyslice list \<Rightarrow> 'a \<Rightarrow> 'a) \<Rightarrow> 'a ncvar \<Rightarrow> pyslice list \<Rightarrow> pyerr + 'a list" where
  "nc_getitem sel v key =
     (case key of
        [] \<Rightarrow> Inr (map (sel []) (nc_records v))
      | s0 # rest \<Rightarrow>
          (case list_getslice (nc_records v) s0 of
             Inl e \<Rightarrow> Inl e
           | Inr rs \<Rightarrow> Inr (map (sel rest) rs)))"

section \<open>Variable\<close>

record 'a Variable =
  dimensions :: "string list"
  mastervar :: "'a ncvar"
  recVar :: "'a ncvar list"
  recdimname :: string
  recLen :: "nat list"
  dtype :: string

text \<open>
  What \<open>__getitem__\<close> returns: \<open>lstArr\<close> is either still the empty Python list or the
  array made by \<open>numpy.concatenate\<close>, given by its records.
\<close>

datatype 'a retval = EmptyList | Array "'a list"

text \<open>The two loops that fill \<open>idx\<close> and \<open>vid\<close> (lines 211 to 216).\<close>

definition build_idx_vid :: "nat list \<Rightarrow> nat list \<times> nat list" where
  "build_idx_vid rl =
     fold (\<lambda>n (idx, vid). (idx @ [0..<rl ! n], vid @ replicate (rl ! n) n))
       [0..<length rl] ([], [])"

text \<open>The comprehension \<open>[i for i,numv in lst if numv == n]\<close> (line 233).\<close>

definition file_idx :: "(nat \<times> nat) list \<Rightarrow> nat \<Rightarrow> nat list" where
  "file_idx lst n = map fst (filter (\<lambda>(i, numv). numv = n) lst)"

text \<open>
  The loop over the member variables (lines 230 to 239). The first component of the
  state records every read issued to the collaborator: the index of the member
  variable and the slicing expression.
\<close>

fun read_loop ::
  "(pyslice list \<Rightarrow> 'a \<Rightarrow> 'a) \<Rightarrow> 'a ncvar list \<Rightarrow> (nat \<times> nat) list \<Rightarrow> int \<Rightarrow> pyslice list \<Rightarrow>
   nat list \<Rightarrow> (nat \<times> pyslice list) list \<times> 'a list list \<Rightarrow>
   (nat \<times> pyslice list) list \<times> (pyerr + 'a list list)" where
  "read_loop sel rv lst step rest [] (log, lstArr) = (log, Inr lstArr)"
| "read_loop sel rv lst step rest (n # ns) (log, lstArr) =
     (let idx = file_idx lst n in
      if idx \<noteq> [] then
        (let newSlice = Slice (int (hd idx)) (int (last idx) + 1) step # rest in
         if n < length rv then
           (case nc_getitem sel (rv ! n) newSlice of
              Inl e \<Rightarrow> (log @ [(n, newSlice)], Inl e)
            | Inr arr \<Rightarrow>
                read_loop sel rv lst step rest ns (log @ [(n, newSlice)], lstArr @ [arr]))
         else (log, Inl (PyErr ''IndexError'' ''list index out of range'' [])))
      else read_loop sel rv lst step rest ns (log, lstArr))"

text \<open>
  \<open>Variable.__getitem__\<close>, from the result of \<open>_buildStartCountStride\<close> (which is not
  in the file): the three lists \<open>start\<close>, \<open>count\<close> and \<open>stride\<close>, one entry per axis.
\<close>

definition Variable_getitem ::
  "(pyslice list \<Rightarrow> 'a \<Rightarrow> 'a) \<Rightarrow> 'a Variable \<Rightarrow> int list \<Rightarrow> int list \<Rightarrow> int list \<Rightarrow>
   (nat \<times> pyslice list) list \<times> (pyerr + 'a retval)" where
  "Variable_getitem sel self start count0 stride =
     (let nv = length (recLen self);
          count = map abs count0
      in
      if list_ex (\<lambda>s. s < 0) stride then
        ([], Inl (PyErr ''IndexError''
                   ''negative strides not allowed when slicing MFVariable Variable instance'' []))
      else if start = [] \<or> stride = [] \<or> count = [] then
        ([], Inl (PyErr ''IndexError'' ''list index out of range'' []))
      else
        (let sta = start ! 0;
             step = stride ! 0;
             stop = sta + (count ! 0) * step;
             (idx, vid) = build_idx_vid (recLen self)
         in
         case list_getslice (zip idx vid) (Slice sta stop step) of
           Inl e \<Rightarrow> ([], Inl e)
         | Inr lst \<Rightarrow>
             if length count < length start \<or> length stride < length start then
               ([], Inl (PyErr ''IndexError'' ''list index out of range'' []))
             else
               (let rest = map (\<lambda>n. Slice (start ! n)
                                       (start ! n + (count ! n) * (stride ! n)) (stride ! n))
                             [1..<length start]
                in
                case read_loop sel (recVar self) lst step rest [0..<nv] ([], []) of
                  (log, Inl e) \<Rightarrow> (log, Inl e)
                | (log, Inr lstArr) \<Rightarrow>
                    (log, Inr (if lstArr \<noteq> [] then Array (concat lstArr) else EmptyList)))))"

section \<open>Dimension\<close>

record Dimension =
  dimlens :: "nat list"
  dimtotlen :: nat

text \<open>
  \<open>dimlens\<close> refers to the list \<open>_cdfVLen\<close> of the owning dataset; the field holds the
  current contents of that list. \<open>dimtotlen\<close> is the integer passed to the constructor.
\<close>

definition Dimension_init :: "nat list \<Rightarrow> nat \<Rightarrow> Dimension" where
  "Dimension_init dl tot = \<lparr>dimlens = dl, dimtotlen = tot\<rparr>"

definition Dimension_len :: "Dimension \<Rightarrow> nat" where
  "Dimension_len self = dimtotlen self"

definition Dimension_isunlimited :: "Dimension \<Rightarrow> bool" where
  "Dimension_isunlimited self = True"

section \<open>Dataset\<close>

text \<open>
  Dictionaries are association lists with distinct keys, in iteration order. The
  entries of \<open>_dims\<close> and \<open>_vars\<close> are either the master's own objects or the wrappers.
\<close>

datatype dim_entry = PlainDim ncdim | VirtualDim Dimension

datatype 'a var_entry = PlainVar "'a ncvar" | VirtualVar "'a Variable"

record 'a Dataset =
  cdf :: "'a ncfile list"
  cdfFiles :: "string list"
  cdfVLen :: "nat list"
  cdfTLen :: nat
  cdfRecVar :: "(string \<times> 'a ncvar list) list"
  dims :: "(string \<times> dim_entry) list"
  vars :: "(string \<times> 'a var_entry) list"
  file_format :: "string list"
  attrs :: "(string \<times> string) list"

text \<open>
  Modelled from the spec: \<open>netCDF4_classic.Dataset(path)\<close> is not in the file. Per the
  collaborator contract (\<open>open(path) -> handle\<close>, failing with the collaborator's own
  error) the file system is a parameter; a successful call leaves one more open handle,
  and the state is the list of the handles that are open.
\<close>

definition nc_open ::
  "(string \<Rightarrow> 'a ncfile option) \<Rightarrow> string \<Rightarrow> string list \<Rightarrow> string list \<times> (pyerr + 'a ncfile)" where
  "nc_open fs f hs =
     (case fs f of
        None \<Rightarrow> (hs, Inl (PyErr ''RuntimeError'' ''No such file or directory'' [AStr f]))
      | Some d \<Rightarrow> (hs @ [f], Inr d))"

text \<open>The loop that looks for the unlimited dimension (lines 37 to 41).\<close>

definition find_unlim :: "(string \<times> ncdim) list \<Rightarrow> (ncdim \<times> string) option" where
  "find_unlim ds =
     fold (\<lambda>(dimname, dim) acc. if isunlimited dim then Some (dim, dimname) else acc) ds None"

text \<open>The record variables of the master (lines 47 to 55).\<close>

definition master_rec_vars ::
  "string \<Rightarrow> (string \<times> 'a ncvar) list \<Rightarrow> (string \<times> string list \<times> nat list \<times> string) list" where
  "master_rec_vars unlimDimName vs =
     map (\<lambda>(vName, v). (vName, nc_dimensions v, nc_shape v, nc_dtype v))
       (filter (\<lambda>(vName, v). length (nc_dimensions v) > 0 \<and> unlimDimName = nc_dimensions v ! 0) vs)"

text \<open>
  The body of the loop over the record variables for one member file (lines 79 to 115),
  up to the point where the member's variable is accepted. Line 86 raises with the name
  \<open>MFDataset\<close>, which the module does not define. Line 89 unpacks \<open>varInfo[v][:3]\<close>,
  the first three records of the member's variable, into three names, which fails
  unless there are three of them.
\<close>

definition check_var ::
  "string \<Rightarrow> string \<Rightarrow> 'a ncfile \<Rightarrow> string \<times> string list \<times> nat list \<times> string \<Rightarrow>
   pyerr + 'a ncvar" where
  "check_var master f part m =
     (case m of (v, masterDims, masterShape, masterType) \<Rightarrow>
      (case map_of (nc_variables part) v of
        None \<Rightarrow> Inl (PyErr ''MFDatasetError'' ''record variable %s not defined in %s''
                      [AStr v, AStr f])
      | Some vInst \<Rightarrow>
          if nc_dimensions vInst = [] then
            Inl (PyErr ''IndexError'' ''tuple index out of range'' [])
          else
            (case map_of (nc_dims part) (nc_dimensions vInst ! 0) of
               None \<Rightarrow> Inl (PyErr ''KeyError'' ''%s'' [AStr (nc_dimensions vInst ! 0)])
             | Some d \<Rightarrow>
                 if \<not> isunlimited d then
                   Inl (PyErr ''NameError'' ''global name %s is not defined'' [AStr ''MFDataset''])
                 else if length (take 3 (nc_records vInst)) \<noteq> 3 then
                   Inl (PyErr ''ValueError'' ''need more than %s values to unpack''
                          [ANat (length (take 3 (nc_records vInst)))])
                 else
                   (let extDims = nc_dimensions vInst;
                        extShape = nc_shape vInst;
                        extType = nc_dtype vInst
                    in
                    if masterDims \<noteq> extDims then
                      Inl (PyErr ''MFDatasetError''
                        ''variable %s : dimensions mismatch between master %s (%s) and extension %s (%s)''
                        [AStr v, AStr master, ADims masterDims, AStr f, ADims extDims])
                    else if length masterShape \<noteq> length extShape then
                      Inl (PyErr ''MFDatasetError''
                        ''variable %s : rank mismatch between master %s (%s) and extension %s (%s)''
                        [AStr v, AStr master, ANat (length masterShape), AStr f,
                         ANat (length extShape)])
                    else if drop 1 masterShape \<noteq> drop 1 extShape then
                      Inl (PyErr ''MFDatasetError''
                        ''variable %s : shape mismatch between master %s (%s) and extension %s (%s)''
                        [AStr v, AStr master, AShape masterShape, AStr f, AShape extShape])
                    else if masterType \<noteq> extType then
                      Inl (PyErr ''MFDatasetError''
                        ''variable %s : data type mismatch between master %s (%s) and extension %s (%s)''
                        [AStr v, AStr master, AStr masterType, AStr f, AStr extType])
                    else Inr vInst))))"

text \<open>
  The loop over the record variables of the master for one member file (lines 78 to
  118): an accepted variable is appended to its entry of \<open>cdfRecVar\<close>.
\<close>

fun check_vars ::
  "string \<Rightarrow> string \<Rightarrow> 'a ncfile \<Rightarrow> (string \<times> string list \<times> nat list \<times> string) list \<Rightarrow>
   (string \<times> 'a ncvar list) list \<Rightarrow> pyerr + (string \<times> 'a ncvar list) list" where
  "check_vars master f part [] rv = Inr rv"
| "check_vars master f part (m # ms) rv =
     (case check_var master f part m of
        Inl e \<Rightarrow> Inl e
      | Inr vInst \<Rightarrow>
          check_vars master f part ms
            (map (\<lambda>(k, l). if k = fst m then (k, l @ [vInst]) else (k, l)) rv))"

text \<open>The loop over the remaining files (lines 75 to 121).\<close>

fun open_parts ::
  "(string \<Rightarrow> 'a ncfile option) \<Rightarrow> string \<Rightarrow> string \<Rightarrow>
   (string \<times> string list \<times> nat list \<times> string) list \<Rightarrow> string list \<Rightarrow>
   string list \<times> 'a ncfile list \<times> nat list \<times> (string \<times> 'a ncvar list) list \<Rightarrow>
   string list \<times> (pyerr + 'a ncfile list \<times> nat list \<times> (string \<times> 'a ncvar list) list)" where
  "open_parts fs master unlimDimName mrv [] (hs, cdfs, vlen, rv) = (hs, Inr (cdfs, vlen, rv))"
| "open_parts fs master unlimDimName mrv (f # rest) (hs, cdfs, vlen, rv) =
     (case nc_open fs f hs of
        (hs', Inl e) \<Rightarrow> (hs', Inl e)
      | (hs', Inr part) \<Rightarrow>
          (case check_vars master f part mrv rv of
             Inl e \<Rightarrow> (hs', Inl e)
           | Inr rv' \<Rightarrow>
               (case map_of (nc_dims part) unlimDimName of
                  None \<Rightarrow> (hs', Inl (PyErr ''KeyError'' ''%s'' [AStr unlimDimName]))
                | Some d \<Rightarrow>
                    open_parts fs master unlimDimName mrv rest
                      (hs', cdfs @ [part], vlen @ [dimlen d], rv'))))"

definition Variable_init ::
  "(string \<times> 'a ncvar list) list \<Rightarrow> nat list \<Rightarrow> string \<Rightarrow> 'a ncvar \<Rightarrow> string \<Rightarrow> 'a Variable" where
  "Variable_init dset_cdfRecVar dset_cdfVLen varname var recdim =
     \<lparr>dimensions = nc_dimensions var,
      mastervar = var,
      recVar = (case map_of dset_cdfRecVar varname of Some l \<Rightarrow> l | None \<Rightarrow> []),
      recdimname = recdim,
      recLen = dset_cdfVLen,
      dtype = nc_dtype var\<rparr>"

text \<open>The initial value of \<open>cdfRecVar\<close> (lines 68 to 70).\<close>

definition init_rv ::
  "(string \<times> 'a ncvar) list \<Rightarrow> (string \<times> string list \<times> nat list \<times> string) list \<Rightarrow>
   (string \<times> 'a ncvar list) list" where
  "init_rv vs mrv = map (\<lambda>(v, info). (v, [the (map_of vs v)])) mrv"

text \<open>
  The attributes attached to the new instance (lines 125 to 140): the unlimited
  dimensions and the record variables of the master are replaced by the wrappers.
\<close>

definition attach ::
  "string list \<Rightarrow> 'a ncfile \<Rightarrow> string \<Rightarrow> 'a ncfile list \<Rightarrow> nat list \<Rightarrow> nat \<Rightarrow>
   (string \<times> 'a ncvar list) list \<Rightarrow> 'a Dataset" where
  "attach files cdfm unlimDimName cdf1 vlen tlen rv =
     \<lparr>cdf = cdf1, cdfFiles = files, cdfVLen = vlen, cdfTLen = tlen, cdfRecVar = rv,
      dims = map (\<lambda>(dimname, dim).
                   if isunlimited dim then (dimname, VirtualDim (Dimension_init vlen tlen))
                   else (dimname, PlainDim dim)) (nc_dims cdfm),
      vars = map (\<lambda>(varname, var).
                   if varname \<in> set (map fst rv)
                   then (varname, VirtualVar (Variable_init rv vlen varname var unlimDimName))
                   else (varname, PlainVar var)) (nc_variables cdfm),
      file_format = map nc_file_format cdf1,
      attrs = nc_attrs cdfm\<rparr>"

text \<open>
  \<open>Dataset.__init__\<close>. The result is the list of open handles together with either the
  exception or the attributes of the new instance. No statement of the method closes a
  file, so the handles only grow. \<open>reduce\<close> (line 127) folds the non-empty list of
  lengths from its first element.
\<close>

definition Dataset_init ::
  "(string \<Rightarrow> 'a ncfile option) \<Rightarrow> string list \<Rightarrow> string list \<times> (pyerr + 'a Dataset)" where
  "Dataset_init fs files =
     (case files of
        [] \<Rightarrow> ([], Inl (PyErr ''IndexError'' ''list index out of range'' []))
      | master # others \<Rightarrow>
          (case nc_open fs master [] of
             (hs, Inl e) \<Rightarrow> (hs, Inl e)
           | (hs, Inr cdfm) \<Rightarrow>
               (case find_unlim (nc_dims cdfm) of
                  None \<Rightarrow> (hs, Inl (PyErr ''MFDatasetError''
                                ''master dataset %s does not have an unlimited dimension''
                                [AStr master]))
                | Some (unlimDimId, unlimDimName) \<Rightarrow>
                    (let masterRecVar = master_rec_vars unlimDimName (nc_variables cdfm) in
                     if length masterRecVar = 0 then
                       (hs, Inl (PyErr ''MFDatasetError''
                                ''master dataset %s does not have any record variable''
                                [AStr master]))
                     else
                       (case open_parts fs master unlimDimName masterRecVar others
                               (hs, [cdfm], [dimlen unlimDimId],
                                init_rv (nc_variables cdfm) masterRecVar) of
                          (hs', Inl e) \<Rightarrow> (hs', Inl e)
                        | (hs', Inr (cdf1, vlen, rv)) \<Rightarrow>
                            (case vlen of
                               [] \<Rightarrow> (hs', Inl (PyErr ''TypeError''
                                  ''reduce() of empty sequence with no initial value'' []))
                             | x # xs \<Rightarrow>
                                 (hs', Inr (attach files cdfm unlimDimName cdf1 vlen
                                              (foldl (+) x xs) rv))))))))"

section \<open>Notions used to state the properties of \<open>Dataset.__init__\<close>\<close>

text \<open>
  A member file conforms to the master for one record variable when none of the
  violations is present: the variable exists by name, its first dimension is unlimited
  in the member, and it has the master's dimension names, rank, shape beyond axis 0 and
  element type.
\<close>

definition conforms :: "'a ncfile \<Rightarrow> string \<times> string list \<times> nat list \<times> string \<Rightarrow> bool" where
  "conforms part m =
     (case m of (v, masterDims, masterShape, masterType) \<Rightarrow>
        (case map_of (nc_variables part) v of
           None \<Rightarrow> False
         | Some vInst \<Rightarrow>
             nc_dimensions vInst \<noteq> []
             \<and> (case map_of (nc_dims part) (nc_dimensions vInst ! 0) of
                   None \<Rightarrow> False | Some d \<Rightarrow> isunlimited d)
             \<and> nc_dimensions vInst = masterDims
             \<and> length (nc_shape vInst) = length masterShape
             \<and> drop 1 (nc_shape vInst) = drop 1 masterShape
             \<and> nc_dtype vInst = masterType))"



section \<open>Notions used to state the properties of \<open>__getitem__\<close>\<close>

text \<open>
  A position \<open>p\<close> lies in the half-open range from \<open>s\<close> to \<open>e\<close> on the grid of step
  \<open>c\<close> that starts at \<open>s\<close>.
\<close>

definition selected :: "int \<Rightarrow> int \<Rightarrow> int \<Rightarrow> nat \<Rightarrow> bool" where
  "selected s e c p \<longleftrightarrow> s \<le> int p \<and> int p < e \<and> (int p - s) mod c = 0"

text \<open>The global position of the first record of member file \<open>n\<close>.\<close>

definition offset :: "nat list \<Rightarrow> nat \<Rightarrow> nat" where
  "offset rl n = sum_list (take n rl)"

text \<open>
  The pairs (local offset, file index) of all records, file by file: the list
  \<open>zip(idx, vid)\<close> of the method, written without the loop.
\<close>

definition blocks :: "nat list \<Rightarrow> (nat \<times> nat) list list" where
  "blocks rl = map (\<lambda>n. map (\<lambda>i. (i, n)) [0..<rl ! n]) [0..<length rl]"

text \<open>
  The local offsets of member file \<open>n\<close> whose global position is selected by the slice
  \<open>sl\<close> taken over all records; the files with at least one such offset are touched.
\<close>

definition local_selection :: "nat list \<Rightarrow> pyslice \<Rightarrow> nat \<Rightarrow> nat list" where
  "local_selection rl sl n =
     filter (\<lambda>i. offset rl n + i \<in> set (slice_positions sl (sum_list rl))) [0..<rl ! n]"

definition touched :: "nat list \<Rightarrow> pyslice \<Rightarrow> nat list" where
  "touched rl sl = filter (\<lambda>n. local_selection rl sl n \<noteq> []) [0..<length rl]"

text \<open>
  The slices of a request: on axis 0 \<open>slice(sta, stop, step)\<close> of lines 202 to 204,
  on the other axes the ones rebuilt at lines 224 to 226.
\<close>

definition axis0_slice :: "int list \<Rightarrow> int list \<Rightarrow> int list \<Rightarrow> pyslice" where
  "axis0_slice start count0 stride =
     Slice (start ! 0) (start ! 0 + abs (count0 ! 0) * (stride ! 0)) (stride ! 0)"

definition inner_slices :: "int list \<Rightarrow> int list \<Rightarrow> int list \<Rightarrow> pyslice list" where
  "inner_slices start count0 stride =
     map (\<lambda>n. Slice (start ! n) (start ! n + abs (count0 ! n) * (stride ! n)) (stride ! n))
       [1..<length start]"

text \<open>
  The one bounded read of a touched file: from its first to its last selected local
  offset, with the step of the request.
\<close>

definition sub_read :: "nat list \<Rightarrow> pyslice \<Rightarrow> pyslice list \<Rightarrow> nat \<Rightarrow> nat \<times> pyslice list" where
  "sub_read rl sl rest n =
     (case sl of Slice a b c \<Rightarrow>
        (n, Slice (int (hd (local_selection rl sl n))) (int (last (local_selection rl sl n)) + 1) c
            # rest))"


text \<open>
  A request that passes the checks of the method: one entry per axis in each list, no
  negative stride, and a positive step on axis 0.
\<close>

definition request_ok :: "int list \<Rightarrow> int list \<Rightarrow> int list \<Rightarrow> bool" where
  "request_ok start count0 stride \<longleftrightarrow>
     start \<noteq> [] \<and> length count0 = length start \<and> length stride = length start
     \<and> \<not> list_ex (\<lambda>s. s < 0) stride \<and> 0 < stride ! 0"

text \<open>
  The global positions a request asks for on axis 0: \<open>start\<close>, \<open>start + step\<close> and so
  on, \<open>count\<close> of them.
\<close>

definition requested :: "int list \<Rightarrow> int list \<Rightarrow> int list \<Rightarrow> nat list" where
  "requested start count0 stride =
     map (\<lambda>j. nat (start ! 0 + int j * (stride ! 0))) [0..<nat (abs (count0 ! 0))]"

section \<open>Example data\<close>

text \<open>
  Three member files with 5, 7 and 3 records of one record variable \<open>v\<close> along the
  unlimited dimension \<open>x\<close>; the records are the numbers 0 to 14.
\<close>

definition ex_ncvar :: "nat list \<Rightarrow> nat ncvar" where
  "ex_ncvar rs =
     \<lparr>nc_dimensions = [''x''], nc_shape = [length rs], nc_dtype = ''i'',
      nc_records = rs, nc_varattrs = []\<rparr>"

definition ex_Variable :: "nat Variable" where
  "ex_Variable =
     \<lparr>dimensions = [''x''],
      mastervar = ex_ncvar [0, 1, 2, 3, 4],
      recVar = [ex_ncvar [0, 1, 2, 3, 4], ex_ncvar [5, 6, 7, 8, 9, 10, 11], ex_ncvar [12, 13, 14]],
      recdimname = ''x'',
      recLen = [5, 7, 3],
      dtype = ''i''\<rparr>"

text \<open>
  The files behind these variables, and members that break the schema: \<open>p\<close> lacks the
  variable, in \<open>n\<close> the dimension \<open>x\<close> is not unlimited, \<open>t\<close> has another element
  type, and \<open>s\<close> has another element type and only two records.
\<close>

definition ex_file :: "nat list \<Rightarrow> nat ncfile" where
  "ex_file rs =
     \<lparr>nc_dims = [(''x'', \<lparr>isunlimited = True, dimlen = length rs\<rparr>)],
      nc_variables = [(''v'', ex_ncvar rs)],
      nc_attrs = [],
      nc_file_format = ''NETCDF3_CLASSIC''\<rparr>"

definition ex_fs :: "string \<Rightarrow> nat ncfile option" where
  "ex_fs f =
     (if f = ''a'' then Some (ex_file [0, 1, 2, 3, 4])
      else if f = ''b'' then Some (ex_file [5, 6, 7, 8, 9, 10, 11])
      else if f = ''c'' then Some (ex_file [12, 13, 14])
      else if f = ''p'' then Some ((ex_file [5, 6, 7])\<lparr>nc_variables := []\<rparr>)
      else if f = ''n'' then
        Some ((ex_file [5, 6, 7])\<lparr>nc_dims := [(''x'', \<lparr>isunlimited = False, dimlen = 3\<rparr>)]\<rparr>)
      else if f = ''t'' then
        Some ((ex_file [5, 6, 7])\<lparr>nc_variables := [(''v'', (ex_ncvar [5, 6, 7])\<lparr>nc_dtype := ''f''\<rparr>)]\<rparr>)
      else if f = ''s'' then
        Some ((ex_file [5, 6])\<lparr>nc_variables := [(''v'', (ex_ncvar [5, 6])\<lparr>nc_dtype := ''f''\<rparr>)]\<rparr>)
      else None)"

section \<open>Python slices as selections of positions\<close>

lemma clip_index_range: "0 < c \<Longrightarrow> 0 \<le> len \<Longrightarrow> 0 \<le> clip_index a c len \<and> clip_index a c len \<le> len"
  by (auto simp: clip_index_def Let_def)

lemma positions_set:
  assumes c: "0 < c" and s: "0 \<le> s" and e: "e \<le> int len"
  shows "set (map (\<lambda>i. nat (s + int i * c)) [0..<nat (slice_length s e c)]) =
         {p. p < len \<and> selected s e c p}"
proof (intro set_eqI iffI)
  fix p assume "p \<in> set (map (\<lambda>i. nat (s + int i * c)) [0..<nat (slice_length s e c)])"
  then obtain i where i: "i < nat (slice_length s e c)" and p: "p = nat (s + int i * c)"
    by auto
  from i c have lt: "s < e" by (auto simp: slice_length_def split: if_splits)
  with c i have "int i \<le> (e - s - 1) div c" by (auto simp: slice_length_def)
  then have "int i * c \<le> ((e - s - 1) div c) * c" using c by (simp add: mult_right_mono)
  moreover have "(e - s - 1) div c * c + (e - s - 1) mod c = e - s - 1" by simp
  moreover have "0 \<le> (e - s - 1) mod c" using c by simp
  ultimately have le: "s + int i * c \<le> e - 1" by linarith
  have ge: "s \<le> s + int i * c" using c by simp
  have ip: "int p = s + int i * c" using p ge s by simp
  show "p \<in> {p. p < len \<and> selected s e c p}"
    using ip le ge e c by (auto simp: selected_def)
next
  fix p assume "p \<in> {p. p < len \<and> selected s e c p}"
  then have sel: "s \<le> int p" "int p < e" "(int p - s) mod c = 0" by (auto simp: selected_def)
  define i where "i = nat ((int p - s) div c)"
  have d0: "0 \<le> (int p - s) div c" using sel c by (simp add: pos_imp_zdiv_nonneg_iff)
  have eq: "int p - s = ((int p - s) div c) * c" using sel(3) div_mult_mod_eq [of "int p - s" c] by simp
  have "(int p - s) div c \<le> (e - s - 1) div c" using sel c by (intro zdiv_mono1) auto
  moreover have "s < e" using sel by simp
  ultimately have "i < nat (slice_length s e c)" using c d0 by (auto simp: slice_length_def i_def)
  moreover have "p = nat (s + int i * c)" using eq d0 by (simp add: i_def)
  ultimately show "p \<in> set (map (\<lambda>i. nat (s + int i * c)) [0..<nat (slice_length s e c)])"
    by auto
qed

lemma positions_sorted:
  assumes c: "0 < c" and s: "0 \<le> s"
  shows "sorted_wrt (<) (map (\<lambda>i. nat (s + int i * c)) [0..<n])"
proof -
  have "\<And>i j. i < j \<Longrightarrow> nat (s + int i * c) < nat (s + int j * c)"
  proof -
    fix i j :: nat assume "i < j"
    then have "int i * c < int j * c" using c by simp
    moreover have "0 \<le> int i * c" using c by simp
    ultimately show "nat (s + int i * c) < nat (s + int j * c)" using s by linarith
  qed
  then show ?thesis by (simp add: sorted_wrt_iff_nth_less)
qed

lemma slice_positions_filter:
  assumes c: "0 < c"
  shows "slice_positions (Slice a b c) len =
         filter (selected (clip_index a c (int len)) (clip_index b c (int len)) c) [0..<len]"
proof -
  let ?s = "clip_index a c (int len)" and ?e = "clip_index b c (int len)"
  have r: "0 \<le> ?s" "?e \<le> int len" using clip_index_range [OF c, of "int len"] by auto
  let ?L = "map (\<lambda>i. nat (?s + int i * c)) [0..<nat (slice_length ?s ?e c)]"
  let ?R = "filter (selected ?s ?e c) [0..<len]"
  have "sorted_wrt (<) ?L" using positions_sorted [OF c r(1)] .
  moreover have "sorted_wrt (<) ?R" by (intro sorted_wrt_filter) simp
  moreover have "set ?L = set ?R" using positions_set [OF c r] by auto
  ultimately have "?L = ?R" by (metis strict_sorted_equal)
  then show ?thesis by (simp add: slice_positions_def Let_def)
qed


lemma offset_snoc: "n \<le> length rl \<Longrightarrow> offset (rl @ [k]) n = offset rl n"
  by (simp add: offset_def)

lemma offset_length: "offset rl (length rl) = sum_list rl"
  by (simp add: offset_def)

lemma filter_upt_split:
  "filter P [0..<a + b] = filter P [0..<a] @ map (\<lambda>i. a + i) (filter (\<lambda>i. P (a + i)) [0..<b])"
proof -
  have "[0..<a + b] = [0..<a] @ map (\<lambda>i. a + i) [0..<b]"
    by (induction b) simp_all
  then show ?thesis by (simp add: filter_map comp_def)
qed

lemma select_concat:
  "map (\<lambda>p. concat bs ! p) (filter P [0..<length (concat bs)]) =
   concat (map (\<lambda>n. map (\<lambda>i. bs ! n ! i)
                        (filter (\<lambda>i. P (offset (map length bs) n + i)) [0..<length (bs ! n)]))
             [0..<length bs])"
proof (induction bs rule: rev_induct)
  case Nil
  then show ?case by simp
next
  case (snoc b bs)
  let ?t = "length (concat bs)"
  have t: "?t = offset (map length bs) (length bs)"
    by (simp add: offset_def length_concat)
  have "map (\<lambda>p. concat (bs @ [b]) ! p) (filter P [0..<length (concat (bs @ [b]))]) =
        map (\<lambda>p. concat (bs @ [b]) ! p) (filter P [0..<?t])
        @ map (\<lambda>i. concat (bs @ [b]) ! (?t + i)) (filter (\<lambda>i. P (?t + i)) [0..<length b])"
    by (simp add: filter_upt_split comp_def)
  also have "map (\<lambda>p. concat (bs @ [b]) ! p) (filter P [0..<?t])
             = map (\<lambda>p. concat bs ! p) (filter P [0..<?t])"
    by (rule map_cong) (auto simp: nth_append)
  also have "map (\<lambda>i. concat (bs @ [b]) ! (?t + i)) (filter (\<lambda>i. P (?t + i)) [0..<length b])
             = map (\<lambda>i. b ! i) (filter (\<lambda>i. P (?t + i)) [0..<length b])"
    by (rule map_cong) (auto simp: nth_append)
  also have "map (\<lambda>p. concat bs ! p) (filter P [0..<?t]) =
     concat (map (\<lambda>n. map (\<lambda>i. bs ! n ! i)
                        (filter (\<lambda>i. P (offset (map length bs) n + i)) [0..<length (bs ! n)]))
             [0..<length bs])"
    by (rule snoc.IH)
  also have "concat (map (\<lambda>n. map (\<lambda>i. bs ! n ! i)
                        (filter (\<lambda>i. P (offset (map length bs) n + i)) [0..<length (bs ! n)]))
             [0..<length bs])
     = concat (map (\<lambda>n. map (\<lambda>i. (bs @ [b]) ! n ! i)
                        (filter (\<lambda>i. P (offset (map length (bs @ [b])) n + i)) [0..<length ((bs @ [b]) ! n)]))
             [0..<length bs])"
    by (rule arg_cong [where f = concat], rule map_cong) (auto simp: nth_append offset_snoc)
  finally show ?case
    by (simp add: t offset_snoc)
qed


lemma fold_idx_vid:
  "m \<le> length rl \<Longrightarrow>
   fold (\<lambda>n (idx, vid). (idx @ [0..<rl ! n], vid @ replicate (rl ! n) n)) [0..<m] ([], []) =
     (concat (map (\<lambda>n. [0..<rl ! n]) [0..<m]), concat (map (\<lambda>n. replicate (rl ! n) n) [0..<m]))"
  by (induction m) simp_all

lemma zip_upt_replicate: "zip [0..<k] (replicate k n) = map (\<lambda>i. (i, n)) [0..<k]"
  by (simp add: zip_replicate2)

lemma zip_concat_blocks:
  "zip (concat (map (\<lambda>n. [0..<rl ! n]) [0..<m])) (concat (map (\<lambda>n. replicate (rl ! n) n) [0..<m]))
   = concat (map (\<lambda>n. map (\<lambda>i. (i, n)) [0..<rl ! n]) [0..<m])"
proof (induction m)
  case 0
  then show ?case by simp
next
  case (Suc m)
  have "length (concat (map (\<lambda>n. [0..<rl ! n]) [0..<m])) =
        length (concat (map (\<lambda>n. replicate (rl ! n) n) [0..<m]))"
    by (simp add: length_concat comp_def)
  then show ?case using Suc by (simp add: zip_upt_replicate)
qed

lemma zip_build_idx_vid:
  "(case build_idx_vid rl of (idx, vid) \<Rightarrow> zip idx vid) = concat (blocks rl)"
  by (simp add: build_idx_vid_def fold_idx_vid zip_concat_blocks blocks_def)

lemma length_blocks: "map length (blocks rl) = rl"
  by (simp add: blocks_def comp_def map_nth)

lemma length_concat_blocks: "length (concat (blocks rl)) = sum_list rl"
  by (simp add: length_concat length_blocks)

lemma concat_single:
  "concat (map (\<lambda>m. if m = n then f m else []) [0..<N]) = (if n < N then f n else [])"
  by (induction N) auto

lemma lst_blocks:
  "map (\<lambda>p. concat (blocks rl) ! p) (filter P [0..<sum_list rl]) =
   concat (map (\<lambda>n. map (\<lambda>i. (i, n)) (filter (\<lambda>i. P (offset rl n + i)) [0..<rl ! n]))
             [0..<length rl])"
proof -
  have "map (\<lambda>p. concat (blocks rl) ! p) (filter P [0..<length (concat (blocks rl))]) =
   concat (map (\<lambda>n. map (\<lambda>i. blocks rl ! n ! i)
                        (filter (\<lambda>i. P (offset (map length (blocks rl)) n + i)) [0..<length (blocks rl ! n)]))
             [0..<length (blocks rl)])"
    by (rule select_concat)
  also have "\<dots> = concat (map (\<lambda>n. map (\<lambda>i. (i, n)) (filter (\<lambda>i. P (offset rl n + i)) [0..<rl ! n]))
             [0..<length rl])"
    unfolding length_blocks
    by (rule arg_cong [where f = concat]) (auto simp: blocks_def intro!: map_cong)
  finally show ?thesis by (simp add: length_concat_blocks)
qed

lemma file_idx:
  assumes "n < length rl"
  shows "map fst (filter (\<lambda>(i, numv). numv = n)
           (map (\<lambda>p. concat (blocks rl) ! p) (filter P [0..<sum_list rl])))
         = filter (\<lambda>i. P (offset rl n + i)) [0..<rl ! n]"
proof -
  have "map fst (filter (\<lambda>(i, numv). numv = n)
           (concat (map (\<lambda>m. map (\<lambda>i. (i, m)) (filter (\<lambda>i. P (offset rl m + i)) [0..<rl ! m]))
             [0..<length rl])))
        = concat (map (\<lambda>m. if m = n then filter (\<lambda>i. P (offset rl m + i)) [0..<rl ! m] else [])
             [0..<length rl])"
    unfolding filter_concat map_concat map_map
    by (rule arg_cong [where f = concat], rule map_cong) (auto simp: filter_map comp_def)
  then show ?thesis using assms by (simp add: lst_blocks concat_single)
qed


lemma slice_positions_mem:
  "0 < c \<Longrightarrow> p \<in> set (slice_positions (Slice a b c) T) \<longleftrightarrow>
     p < T \<and> selected (clip_index a c (int T)) (clip_index b c (int T)) c p"
  by (auto simp: slice_positions_filter)

lemma filter_slice_positions:
  "0 < c \<Longrightarrow> filter (\<lambda>p. p \<in> set (slice_positions (Slice a b c) T)) [0..<T]
     = slice_positions (Slice a b c) T"
  by (simp add: slice_positions_filter) (rule filter_cong, auto)

lemma offset_le: "n < length rl \<Longrightarrow> offset rl n + rl ! n \<le> sum_list rl"
proof -
  assume n: "n < length rl"
  have "sum_list rl = sum_list (take n rl) + sum_list (drop n rl)"
    by (metis append_take_drop_id sum_list_append)
  also have "drop n rl = rl ! n # drop (Suc n) rl" using n by (simp add: Cons_nth_drop_Suc)
  finally show ?thesis by (simp add: offset_def)
qed

lemma sorted_hd_last:
  fixes xs :: "nat list"
  shows "sorted xs \<Longrightarrow> x \<in> set xs \<Longrightarrow> hd xs \<le> x \<and> x \<le> last xs"
  by (induction xs) (auto split: if_splits)

lemma selected_dvd: "selected s e c p \<longleftrightarrow> s \<le> int p \<and> int p < e \<and> c dvd (int p - s)"
  by (auto simp: selected_def mod_eq_0_iff_dvd)

lemma clip_index_id: "0 \<le> i \<Longrightarrow> i \<le> len \<Longrightarrow> 0 < c \<Longrightarrow> clip_index i c len = i"
  by (auto simp: clip_index_def Let_def)

lemma local_slice:
  assumes c: "0 < c" and n: "n < length rl"
    and ne: "local_selection rl (Slice a b c) n \<noteq> []"
  shows "slice_positions
           (Slice (int (hd (local_selection rl (Slice a b c) n)))
                  (int (last (local_selection rl (Slice a b c) n)) + 1) c) (rl ! n)
         = local_selection rl (Slice a b c) n"
proof -
  let ?T = "sum_list rl" and ?k = "rl ! n" and ?off = "offset rl n"
  let ?s = "clip_index a c (int ?T)" and ?e = "clip_index b c (int ?T)"
  let ?idx = "local_selection rl (Slice a b c) n"
  let ?h = "hd ?idx" and ?l = "last ?idx"
  have idx: "?idx = filter (\<lambda>i. selected ?s ?e c (?off + i)) [0..<?k]"
    unfolding local_selection_def
    using offset_le [OF n] by (intro filter_cong) (auto simp: slice_positions_mem [OF c])
  have mem: "\<And>i. i \<in> set ?idx \<longleftrightarrow> i < ?k \<and> selected ?s ?e c (?off + i)"
    by (subst idx) auto
  have hl: "?h \<in> set ?idx" "?l \<in> set ?idx" using ne by simp_all
  have srt: "sorted ?idx" unfolding local_selection_def by (simp add: sorted_wrt_filter)
  have h: "?h < ?k" "selected ?s ?e c (?off + ?h)" using hl(1) mem by blast+
  have l: "?l < ?k" "selected ?s ?e c (?off + ?l)" using hl(2) mem by blast+
  have ch: "clip_index (int ?h) c (int ?k) = int ?h" using h(1) c by (intro clip_index_id) auto
  have cl: "clip_index (int ?l + 1) c (int ?k) = int ?l + 1" using l(1) c by (intro clip_index_id) auto
  have "slice_positions (Slice (int ?h) (int ?l + 1) c) ?k
        = filter (selected (int ?h) (int ?l + 1) c) [0..<?k]"
    by (simp add: slice_positions_filter [OF c] ch cl)
  also have "\<dots> = filter (\<lambda>i. selected ?s ?e c (?off + i)) [0..<?k]"
  proof (rule filter_cong [OF refl])
    fix i assume "i \<in> set [0..<?k]"
    then have ik: "i < ?k" by simp
    show "selected (int ?h) (int ?l + 1) c i \<longleftrightarrow> selected ?s ?e c (?off + i)"
    proof
      assume a: "selected (int ?h) (int ?l + 1) c i"
      then have b: "?h \<le> i" "i \<le> ?l" "c dvd (int i - int ?h)" by (auto simp: selected_dvd)
      from h(2) have hs: "?s \<le> int (?off + ?h)" "c dvd (int (?off + ?h) - ?s)"
        by (auto simp: selected_dvd)
      from l(2) have le: "int (?off + ?l) < ?e" by (auto simp: selected_dvd)
      have "int (?off + i) - ?s = (int (?off + ?h) - ?s) + (int i - int ?h)" by simp
      then have "c dvd (int (?off + i) - ?s)" using hs(2) b(3) by (metis dvd_add)
      then show "selected ?s ?e c (?off + i)" using b hs(1) le by (auto simp: selected_dvd)
    next
      assume a: "selected ?s ?e c (?off + i)"
      then have "i \<in> set ?idx" using ik mem by blast
      then have b: "?h \<le> i" "i \<le> ?l" using sorted_hd_last [OF srt] by auto
      from h(2) have hs: "c dvd (int (?off + ?h) - ?s)" by (auto simp: selected_dvd)
      from a have as: "c dvd (int (?off + i) - ?s)" by (auto simp: selected_dvd)
      have "int i - int ?h = (int (?off + i) - ?s) - (int (?off + ?h) - ?s)" by simp
      then have "c dvd (int i - int ?h)" using hs as by (metis dvd_diff)
      then show "selected (int ?h) (int ?l + 1) c i" using b by (auto simp: selected_dvd)
    qed
  qed
  finally show ?thesis using idx by simp
qed


lemma read_loop_char:
  assumes "step \<noteq> 0" and "\<forall>n\<in>set ns. n < length rv"
  shows "read_loop sel rv lst step rest ns (log, acc) =
     (log @ map (\<lambda>n. (n, Slice (int (hd (file_idx lst n))) (int (last (file_idx lst n)) + 1) step
                         # rest))
              (filter (\<lambda>n. file_idx lst n \<noteq> []) ns),
      Inr (acc @ map (\<lambda>n. map (sel rest) (map (\<lambda>p. nc_records (rv ! n) ! p)
                     (slice_positions
                        (Slice (int (hd (file_idx lst n))) (int (last (file_idx lst n)) + 1) step)
                        (length (nc_records (rv ! n))))))
              (filter (\<lambda>n. file_idx lst n \<noteq> []) ns)))"
  using assms(2)
proof (induction ns arbitrary: log acc)
  case Nil
  then show ?case by simp
next
  case (Cons n ns)
  then show ?case using assms(1)
    by (simp add: Let_def nc_getitem_def list_getslice_def)
qed

lemma file_idx_local:
  assumes "0 < c" and "n < length rl"
  shows "file_idx (map (\<lambda>p. concat (blocks rl) ! p) (slice_positions (Slice a b c) (sum_list rl))) n
         = local_selection rl (Slice a b c) n"
proof -
  have "file_idx (map (\<lambda>p. concat (blocks rl) ! p)
          (filter (\<lambda>p. p \<in> set (slice_positions (Slice a b c) (sum_list rl))) [0..<sum_list rl])) n
        = local_selection rl (Slice a b c) n"
    unfolding file_idx_def local_selection_def using assms(2) by (rule file_idx)
  then show ?thesis by (simp add: filter_slice_positions [OF assms(1)])
qed


lemma concat_nonempty_only:
  "concat (map (\<lambda>n. map (h n) (g n)) (filter (\<lambda>n. g n \<noteq> []) ns)) = concat (map (\<lambda>n. map (h n) (g n)) ns)"
  by (induction ns) auto

lemma gather:
  assumes len: "map (\<lambda>v. length (nc_records v)) rv = rl" and c: "0 < c"
  shows "concat (map (\<lambda>n. map (\<lambda>p. nc_records (rv ! n) ! p) (local_selection rl (Slice a b c) n))
                   [0..<length rl])
         = map (\<lambda>p. concat (map nc_records rv) ! p) (slice_positions (Slice a b c) (sum_list rl))"
proof -
  let ?bs = "map nc_records rv"
  let ?P = "\<lambda>p. p \<in> set (slice_positions (Slice a b c) (sum_list rl))"
  have ml: "map length ?bs = rl" using len by (simp add: comp_def)
  have lr: "length rv = length rl" using len by (metis length_map)
  have lc: "length (concat ?bs) = sum_list rl" using ml by (simp add: length_concat)
  have "map (\<lambda>p. concat ?bs ! p) (filter ?P [0..<length (concat ?bs)]) =
        concat (map (\<lambda>n. map (\<lambda>i. ?bs ! n ! i)
                        (filter (\<lambda>i. ?P (offset (map length ?bs) n + i)) [0..<length (?bs ! n)]))
             [0..<length ?bs])"
    by (rule select_concat)
  also have "\<dots> = concat (map (\<lambda>n. map (\<lambda>p. nc_records (rv ! n) ! p)
                          (local_selection rl (Slice a b c) n)) [0..<length rl])"
    unfolding ml
  proof (rule arg_cong [where f = concat], rule map_cong)
    show "[0..<length ?bs] = [0..<length rl]" using lr by simp
  next
    fix n assume "n \<in> set [0..<length rl]"
    then have n: "n < length rv" using lr by simp
    then have "length (nc_records (rv ! n)) = rl ! n" using len by (metis nth_map)
    then show "map (\<lambda>i. ?bs ! n ! i) (filter (\<lambda>i. ?P (offset rl n + i)) [0..<length (?bs ! n)])
             = map (\<lambda>p. nc_records (rv ! n) ! p) (local_selection rl (Slice a b c) n)"
      using n by (simp add: local_selection_def)
  qed
  finally show ?thesis using lc by (simp add: filter_slice_positions [OF c])
qed

lemma touched_Nil_iff:
  assumes len: "map (\<lambda>v. length (nc_records v)) rv = rl" and c: "0 < c"
  shows "touched rl (Slice a b c) = [] \<longleftrightarrow> slice_positions (Slice a b c) (sum_list rl) = []"
proof -
  have "slice_positions (Slice a b c) (sum_list rl) = [] \<longleftrightarrow>
        concat (map (\<lambda>n. map (\<lambda>p. nc_records (rv ! n) ! p) (local_selection rl (Slice a b c) n))
                   [0..<length rl]) = []"
    by (simp only: gather [OF len c] map_is_Nil_conv)
  also have "\<dots> \<longleftrightarrow> touched rl (Slice a b c) = []"
    by (auto simp: touched_def filter_empty_conv)
  finally show ?thesis by simp
qed

lemma read_loop_touched:
  assumes c: "0 < c" and len: "map (\<lambda>v. length (nc_records v)) rv = rl"
    and lst: "lst = map (\<lambda>p. concat (blocks rl) ! p) (slice_positions (Slice a b c) (sum_list rl))"
  shows "read_loop sel rv lst c rest [0..<length rl] ([], []) =
     (map (sub_read rl (Slice a b c) rest) (touched rl (Slice a b c)),
      Inr (map (\<lambda>n. map (sel rest) (map (\<lambda>p. nc_records (rv ! n) ! p) (local_selection rl (Slice a b c) n)))
             (touched rl (Slice a b c))))"
proof -
  let ?sl = "Slice a b c"
  let ?K = "\<lambda>n. (n, Slice (int (hd (file_idx lst n))) (int (last (file_idx lst n)) + 1) c # rest)"
  let ?B = "\<lambda>n. map (sel rest) (map (\<lambda>p. nc_records (rv ! n) ! p)
                     (slice_positions
                        (Slice (int (hd (file_idx lst n))) (int (last (file_idx lst n)) + 1) c)
                        (length (nc_records (rv ! n)))))"
  let ?F = "\<lambda>n. file_idx lst n \<noteq> []"
  have lr: "length rv = length rl" using len by (metis length_map)
  have fi: "file_idx lst n = local_selection rl ?sl n" if "n < length rl" for n
    unfolding lst using c that by (rule file_idx_local)
  have f: "filter ?F [0..<length rl] = touched rl ?sl"
    unfolding touched_def by (rule filter_cong) (auto simp: fi)
  have t: "n < length rl \<and> local_selection rl ?sl n \<noteq> []" if "n \<in> set (touched rl ?sl)" for n
    using that by (simp add: touched_def)
  have c0: "c \<noteq> 0" using c by simp
  have bnd: "\<forall>n\<in>set [0..<length rl]. n < length rv" using lr by simp
  have r0: "read_loop sel rv lst c rest [0..<length rl] ([], []) =
       ([] @ map ?K (filter ?F [0..<length rl]), Inr ([] @ map ?B (filter ?F [0..<length rl])))"
    using c0 bnd by (rule read_loop_char)
  have k: "map ?K (touched rl ?sl) = map (sub_read rl ?sl rest) (touched rl ?sl)"
  proof (rule map_cong [OF refl])
    fix n assume "n \<in> set (touched rl ?sl)"
    then have "n < length rl" using t by blast
    then show "?K n = sub_read rl ?sl rest n" by (simp add: sub_read_def fi)
  qed
  have b: "map ?B (touched rl ?sl) =
           map (\<lambda>n. map (sel rest) (map (\<lambda>p. nc_records (rv ! n) ! p) (local_selection rl ?sl n)))
             (touched rl ?sl)"
  proof (rule map_cong [OF refl])
    fix n assume "n \<in> set (touched rl ?sl)"
    then have n: "n < length rl" "local_selection rl ?sl n \<noteq> []" using t by blast+
    have "rl ! n = map (\<lambda>v. length (nc_records v)) rv ! n" using len by simp
    then have ln: "length (nc_records (rv ! n)) = rl ! n" using n(1) lr by simp
    have "slice_positions (Slice (int (hd (file_idx lst n))) (int (last (file_idx lst n)) + 1) c)
            (length (nc_records (rv ! n))) = local_selection rl ?sl n"
      unfolding ln fi [OF n(1)] using c n by (rule local_slice)
    then show "?B n = map (sel rest) (map (\<lambda>p. nc_records (rv ! n) ! p) (local_selection rl ?sl n))"
      by (simp only:)
  qed
  show ?thesis
    by (simp only: r0 f k b append_Nil)
qed

lemma concat_touched:
  assumes c: "0 < c" and len: "map (\<lambda>v. length (nc_records v)) rv = rl"
  shows "concat (map (\<lambda>n. map (sel rest) (map (\<lambda>p. nc_records (rv ! n) ! p) (local_selection rl (Slice a b c) n)))
             (touched rl (Slice a b c)))
          = map (sel rest) (map (\<lambda>p. concat (map nc_records rv) ! p)
                     (slice_positions (Slice a b c) (sum_list rl)))"
proof -
  let ?sl = "Slice a b c"
  have "concat (map (\<lambda>n. map (sel rest) (map (\<lambda>p. nc_records (rv ! n) ! p) (local_selection rl ?sl n)))
             (touched rl ?sl))
      = concat (map (\<lambda>n. map (\<lambda>p. sel rest (nc_records (rv ! n) ! p)) (local_selection rl ?sl n))
             (filter (\<lambda>n. local_selection rl ?sl n \<noteq> []) [0..<length rl]))"
    by (simp add: touched_def comp_def)
  also have "\<dots> = concat (map (\<lambda>n. map (\<lambda>p. sel rest (nc_records (rv ! n) ! p)) (local_selection rl ?sl n))
             [0..<length rl])"
    by (rule concat_nonempty_only)
  also have "\<dots> = map (sel rest) (concat (map (\<lambda>n. map (\<lambda>p. nc_records (rv ! n) ! p)
                   (local_selection rl ?sl n)) [0..<length rl]))"
    by (simp add: map_concat comp_def)
  also have "\<dots> = map (sel rest) (map (\<lambda>p. concat (map nc_records rv) ! p)
                     (slice_positions ?sl (sum_list rl)))"
    by (simp only: gather [OF len c])
  finally show ?thesis .
qed


lemma getitem_char:
  assumes ok: "request_ok start count0 stride"
    and len: "map (\<lambda>v. length (nc_records v)) (recVar self) = recLen self"
  shows "Variable_getitem sel self start count0 stride =
     (map (sub_read (recLen self) (axis0_slice start count0 stride) (inner_slices start count0 stride))
          (touched (recLen self) (axis0_slice start count0 stride)),
      Inr (if touched (recLen self) (axis0_slice start count0 stride) = [] then EmptyList
           else Array (map (sel (inner_slices start count0 stride))
                  (map (\<lambda>p. concat (map nc_records (recVar self)) ! p)
                     (slice_positions (axis0_slice start count0 stride) (sum_list (recLen self)))))))"
proof -
  let ?rl = "recLen self" and ?rv = "recVar self"
  let ?a = "start ! 0" and ?c = "stride ! 0"
  let ?b = "?a + abs (count0 ! 0) * ?c"
  let ?sl = "Slice ?a ?b ?c"
  let ?rest = "inner_slices start count0 stride"
  from ok have s: "start \<noteq> []" "length count0 = length start" "length stride = length start"
    "\<not> list_ex (\<lambda>s. s < 0) stride" "0 < ?c"
    by (auto simp: request_ok_def)
  have sl: "axis0_slice start count0 stride = ?sl" by (simp add: axis0_slice_def)
  obtain idx vid where iv: "build_idx_vid ?rl = (idx, vid)" by (cases "build_idx_vid ?rl")
  then have z: "zip idx vid = concat (blocks ?rl)" using zip_build_idx_vid [of ?rl] by simp
  define lst where "lst = map (\<lambda>p. concat (blocks ?rl) ! p) (slice_positions ?sl (sum_list ?rl))"
  have c0: "map abs count0 ! 0 = abs (count0 ! 0)" using s by (simp add: nth_map)
  have gs: "list_getslice (zip idx vid) (Slice ?a (?a + map abs count0 ! 0 * ?c) ?c) = Inr lst"
    using s(5) by (simp add: list_getslice_def z length_concat_blocks c0 lst_def)
  have rest: "map (\<lambda>n. Slice (start ! n) (start ! n + (map abs count0 ! n) * (stride ! n)) (stride ! n))
                [1..<length start] = ?rest"
    unfolding inner_slices_def using s(2) by (intro map_cong) auto
  have rd: "read_loop sel ?rv lst ?c ?rest [0..<length ?rl] ([], []) =
     (map (sub_read ?rl ?sl ?rest) (touched ?rl ?sl),
      Inr (map (\<lambda>n. map (sel ?rest) (map (\<lambda>p. nc_records (?rv ! n) ! p) (local_selection ?rl ?sl n)))
             (touched ?rl ?sl)))"
    using s(5) len lst_def by (rule read_loop_touched)
  have cc: "concat (map (\<lambda>n. map (sel ?rest) (map (\<lambda>p. nc_records (?rv ! n) ! p) (local_selection ?rl ?sl n)))
             (touched ?rl ?sl))
          = map (sel ?rest) (map (\<lambda>p. concat (map nc_records ?rv) ! p)
                     (slice_positions ?sl (sum_list ?rl)))"
    using s(5) len by (rule concat_touched)
  have e1: "start = [] \<or> stride = [] \<or> map abs count0 = [] \<longleftrightarrow> False"
    using s by auto
  have e2: "length (map abs count0) < length start \<or> length stride < length start \<longleftrightarrow> False"
    using s by simp
  have "Variable_getitem sel self start count0 stride =
     (case read_loop sel ?rv lst ?c ?rest [0..<length ?rl] ([], []) of
        (log, Inl e) \<Rightarrow> (log, Inl e)
      | (log, Inr lstArr) \<Rightarrow>
          (log, Inr (if lstArr \<noteq> [] then Array (concat lstArr) else EmptyList)))"
    unfolding Variable_getitem_def Let_def
    by (simp only: s(4) e1 e2 if_False iv prod.case gs sum.case rest)
  also have "\<dots> = (map (sub_read ?rl ?sl ?rest) (touched ?rl ?sl),
      Inr (if touched ?rl ?sl = [] then EmptyList
           else Array (map (sel ?rest) (map (\<lambda>p. concat (map nc_records ?rv) ! p)
                     (slice_positions ?sl (sum_list ?rl))))))"
    unfolding rd by (simp add: cc del: map_map)
  finally show ?thesis unfolding sl .
qed


lemma clip_index_min:
  "0 \<le> i \<Longrightarrow> 0 < c \<Longrightarrow> 0 \<le> len \<Longrightarrow> clip_index i c len = min i len"
  by (auto simp: clip_index_def Let_def)

lemma slice_positions_clip:
  assumes a: "0 \<le> a" and c: "0 < c" and n: "0 \<le> n"
  shows "slice_positions (Slice a (a + n * c) c) T =
         filter (\<lambda>p. p < T) (map (\<lambda>j. nat (a + int j * c)) [0..<nat n])"
proof -
  let ?s = "clip_index a c (int T)" and ?e = "clip_index (a + n * c) c (int T)"
  let ?L = "slice_positions (Slice a (a + n * c) c) T"
  let ?R = "filter (\<lambda>p. p < T) (map (\<lambda>j. nat (a + int j * c)) [0..<nat n])"
  have nc: "0 \<le> n * c" using n c by simp
  have s: "?s = min a (int T)" using a c by (intro clip_index_min) auto
  have e: "?e = min (a + n * c) (int T)" using a c nc by (intro clip_index_min) auto
  have L: "?L = filter (selected ?s ?e c) [0..<T]" by (rule slice_positions_filter [OF c])
  have "sorted_wrt (<) ?L" unfolding L by (intro sorted_wrt_filter) simp
  moreover have "sorted_wrt (<) ?R" by (intro sorted_wrt_filter positions_sorted [OF c a])
  moreover have "set ?L = set ?R"
  proof (intro set_eqI iffI)
    fix p assume "p \<in> set ?L"
    then have p: "p < T" "?s \<le> int p" "int p < ?e" "c dvd (int p - ?s)"
      by (auto simp: L selected_dvd)
    from p(1,2) s have sa: "?s = a" by (auto simp: min_def split: if_splits)
    from p(4) sa obtain j where j: "int p - a = c * j" by (auto simp: dvd_def)
    have "0 \<le> c * j" using j p(2) sa by simp
    then have j0: "0 \<le> j" using c by (simp add: zero_le_mult_iff)
    have "c * j < c * n" using j p(3) e by (simp add: mult.commute)
    then have jn: "j < n" using c by simp
    define k where "k = nat j"
    have "int p = a + int k * c" using j j0 by (simp add: mult.commute k_def)
    then have "p = nat (a + int k * c)" by linarith
    moreover have "k < nat n" using jn j0 by (simp add: k_def)
    ultimately have "p \<in> set (map (\<lambda>j. nat (a + int j * c)) [0..<nat n])"
      by (auto simp: image_iff intro!: bexI [of _ k])
    then show "p \<in> set ?R" using p(1) by simp
  next
    fix p assume "p \<in> set ?R"
    then obtain j where j: "j < nat n" "p = nat (a + int j * c)" and pT: "p < T" by auto
    have jc: "0 \<le> int j * c" using c by simp
    have ip: "int p = a + int j * c" using j(2) a jc by simp
    have "int j < n" using j(1) by simp
    then have "int j * c < n * c" using c by simp
    then have "int p < a + n * c" using ip by simp
    moreover have "a \<le> int p" using ip jc by simp
    moreover have "?s = a" using s pT \<open>a \<le> int p\<close> by simp
    ultimately have "selected ?s ?e c p" using pT e ip by (simp add: selected_dvd)
    then show "p \<in> set ?L" using pT by (simp add: L)
  qed
  ultimately show ?thesis by (metis strict_sorted_equal)
qed


section \<open>Reads across member files\<close>


lemma fst_sub_read: "fst (sub_read rl sl rest n) = n"
  by (cases sl) (simp add: sub_read_def)

lemma sorted_touched: "sorted_wrt (<) (touched rl sl)"
  unfolding touched_def by (intro sorted_wrt_filter) simp

lemma sub_read_result:
  assumes c: "0 < c" and len: "map (\<lambda>v. length (nc_records v)) rv = rl"
    and n: "n \<in> set (touched rl (Slice a b c))"
  shows "nc_getitem sel (rv ! n) (snd (sub_read rl (Slice a b c) rest n)) =
         Inr (map (sel rest) (map (\<lambda>p. nc_records (rv ! n) ! p) (local_selection rl (Slice a b c) n)))"
proof -
  from n have nl: "n < length rl" and ne: "local_selection rl (Slice a b c) n \<noteq> []"
    by (simp_all add: touched_def)
  have "rl ! n = map (\<lambda>v. length (nc_records v)) rv ! n" using len by simp
  moreover have "n < length rv" using nl len by (metis length_map)
  ultimately have ln: "length (nc_records (rv ! n)) = rl ! n" by simp
  show ?thesis
    using c by (simp add: sub_read_def nc_getitem_def list_getslice_def ln local_slice [OF c nl ne])
qed




text \<open>
  C2 as amended: the reads issued are one per touched file, in ascending file order,
  each from the first to the last selected local offset of its file with the step of
  the request; each returns exactly the selected records of its file, and the result is
  their concatenation in that order. With record counts 5, 7 and 3 the request
  \<open>[4:13:2]\<close> (start 4, count 5, step 2) reads file 0 at local offset 4, file 1 at
  local offsets 1, 3, 5 and file 2 at local offset 0, and yields 5 records.
\<close>

theorem getitem_sub_reads:
  assumes ok: "request_ok start count0 stride"
    and len: "map (\<lambda>v. length (nc_records v)) (recVar self) = recLen self"
  shows "fst (Variable_getitem sel self start count0 stride) =
           map (sub_read (recLen self) (axis0_slice start count0 stride) (inner_slices start count0 stride))
             (touched (recLen self) (axis0_slice start count0 stride))
       \<and> sorted_wrt (<) (map fst (fst (Variable_getitem sel self start count0 stride)))
       \<and> (\<forall>n\<in>set (touched (recLen self) (axis0_slice start count0 stride)).
             nc_getitem sel (recVar self ! n)
               (snd (sub_read (recLen self) (axis0_slice start count0 stride)
                      (inner_slices start count0 stride) n)) =
             Inr (map (sel (inner_slices start count0 stride))
                   (map (\<lambda>p. nc_records (recVar self ! n) ! p)
                      (local_selection (recLen self) (axis0_slice start count0 stride) n))))
       \<and> snd (Variable_getitem sel self start count0 stride) =
           Inr (if touched (recLen self) (axis0_slice start count0 stride) = [] then EmptyList
                else Array (concat (map (\<lambda>n. map (sel (inner_slices start count0 stride))
                   (map (\<lambda>p. nc_records (recVar self ! n) ! p)
                      (local_selection (recLen self) (axis0_slice start count0 stride) n)))
                   (touched (recLen self) (axis0_slice start count0 stride)))))
       \<and> fst (Variable_getitem (\<lambda>sl x. x) ex_Variable [4] [5] [2]) =
           [(0, [Slice 4 5 2]), (1, [Slice 1 6 2]), (2, [Slice 0 1 2])]
       \<and> map (local_selection [5, 7, 3] (Slice 4 14 2)) [0, 1, 2] = [[4], [1, 3, 5], [0]]
       \<and> snd (Variable_getitem (\<lambda>sl x. x) ex_Variable [4] [5] [2]) = Inr (Array [4, 6, 8, 10, 12])"
proof -
  let ?a = "start ! 0" and ?c = "stride ! 0"
  let ?sl = "Slice ?a (?a + abs (count0 ! 0) * ?c) ?c"
  let ?rest = "inner_slices start count0 stride"
  have sl: "axis0_slice start count0 stride = ?sl" by (simp add: axis0_slice_def)
  have c: "0 < ?c" using ok by (simp add: request_ok_def)
  have g: "Variable_getitem sel self start count0 stride =
     (map (sub_read (recLen self) ?sl ?rest) (touched (recLen self) ?sl),
      Inr (if touched (recLen self) ?sl = [] then EmptyList
           else Array (map (sel ?rest)
                  (map (\<lambda>p. concat (map nc_records (recVar self)) ! p)
                     (slice_positions ?sl (sum_list (recLen self)))))))"
    using getitem_char [OF ok len, of sel] unfolding sl .
  have 1: "fst (Variable_getitem sel self start count0 stride) =
           map (sub_read (recLen self) ?sl ?rest) (touched (recLen self) ?sl)"
    by (simp only: g fst_conv)
  have "map fst (map (sub_read (recLen self) ?sl ?rest) (touched (recLen self) ?sl))
        = touched (recLen self) ?sl"
    by (simp add: comp_def fst_sub_read)
  then have 2: "sorted_wrt (<) (map fst (fst (Variable_getitem sel self start count0 stride)))"
    unfolding 1 by (simp only: sorted_touched)
  have 3: "\<forall>n\<in>set (touched (recLen self) ?sl).
             nc_getitem sel (recVar self ! n) (snd (sub_read (recLen self) ?sl ?rest n)) =
             Inr (map (sel ?rest) (map (\<lambda>p. nc_records (recVar self ! n) ! p)
                      (local_selection (recLen self) ?sl n)))"
    using sub_read_result [OF c len] by blast
  have 4: "snd (Variable_getitem sel self start count0 stride) =
           Inr (if touched (recLen self) ?sl = [] then EmptyList
                else Array (concat (map (\<lambda>n. map (sel ?rest)
                   (map (\<lambda>p. nc_records (recVar self ! n) ! p) (local_selection (recLen self) ?sl n)))
                   (touched (recLen self) ?sl))))"
    by (simp only: g snd_conv concat_touched [OF c len])
  have 5: "fst (Variable_getitem (\<lambda>sl x. x) ex_Variable [4] [5] [2]) =
           [(0, [Slice 4 5 2]), (1, [Slice 1 6 2]), (2, [Slice 0 1 2])]"
    by code_simp
  have 6: "map (local_selection [5, 7, 3] (Slice 4 14 2)) [0, 1, 2] = [[4], [1, 3, 5], [0]]"
    by code_simp
  have 7: "snd (Variable_getitem (\<lambda>sl x. x) ex_Variable [4] [5] [2]) = Inr (Array [4, 6, 8, 10, 12])"
    by code_simp
  show ?thesis unfolding sl using 1 2 3 4 5 6 7 by blast
qed

theorem getitem_sub_reads_witness:
  "fst (Variable_getitem (\<lambda>sl x. x) ex_Variable [0] [4] [6]) =
     [(0, [Slice 0 1 6]), (1, [Slice 1 2 6]), (2, [Slice 0 1 6])]
   \<and> snd (Variable_getitem (\<lambda>sl x. x) ex_Variable [0] [4] [6]) = Inr (Array [0, 6, 12])"
proof -
  have ok: "request_ok [0] [4] [6]" by (simp add: request_ok_def)
  have len: "map (\<lambda>v. length (nc_records v)) (recVar ex_Variable) = recLen ex_Variable"
    by (simp add: ex_Variable_def ex_ncvar_def)
  have t: "touched (recLen ex_Variable) (axis0_slice [0] [4] [6]) = [0, 1, 2]" by code_simp
  have s: "map (sub_read (recLen ex_Variable) (axis0_slice [0] [4] [6]) (inner_slices [0] [4] [6])) [0, 1, 2]
           = [(0, [Slice 0 1 6]), (1, [Slice 1 2 6]), (2, [Slice 0 1 6])]" by code_simp
  have r: "concat (map (\<lambda>n. map (\<lambda>x. x)
                   (map (\<lambda>p. nc_records (recVar ex_Variable ! n) ! p)
                      (local_selection (recLen ex_Variable) (axis0_slice [0] [4] [6]) n))) [0, 1, 2])
           = [0, 6, 12]" by code_simp
  note th = getitem_sub_reads [OF ok len, of "\<lambda>sl x. x"]
  have a: "fst (Variable_getitem (\<lambda>sl x. x) ex_Variable [0] [4] [6]) =
           [(0, [Slice 0 1 6]), (1, [Slice 1 2 6]), (2, [Slice 0 1 6])]"
    using th [THEN conjunct1] unfolding t s .
  have b: "snd (Variable_getitem (\<lambda>sl x. x) ex_Variable [0] [4] [6]) = Inr (Array [0, 6, 12])"
    using th [THEN conjunct2, THEN conjunct2, THEN conjunct2, THEN conjunct1]
    unfolding t r by simp
  from a b show ?thesis by (rule conjI)
qed

text \<open>
  C2 as stated fails in its example: global position 12 is local offset 0 of file 2,
  not 2.
\<close>

theorem getitem_sub_reads_counterexample:
  "fst (Variable_getitem (\<lambda>sl x. x) ex_Variable [4] [5] [2]) =
     [(0, [Slice 4 5 2]), (1, [Slice 1 6 2]), (2, [Slice 0 1 2])]
   \<and> local_selection (recLen ex_Variable) (axis0_slice [4] [5] [2]) 2 = [0]
   \<and> local_selection (recLen ex_Variable) (axis0_slice [4] [5] [2]) 2 \<noteq> [2]"
  by code_simp

text \<open>
  C10: requested positions at or beyond the total record count are dropped without an
  error, and the result is the empty Python list exactly when no read is issued.
\<close>

theorem getitem_clips_out_of_range:
  assumes ok: "request_ok start count0 stride"
    and len: "map (\<lambda>v. length (nc_records v)) (recVar self) = recLen self"
    and nonneg: "0 \<le> start ! 0"
  shows "snd (Variable_getitem sel self start count0 stride) =
           Inr (if filter (\<lambda>p. p < sum_list (recLen self)) (requested start count0 stride) = []
                then EmptyList
                else Array (map (sel (inner_slices start count0 stride))
                       (map (\<lambda>p. concat (map nc_records (recVar self)) ! p)
                          (filter (\<lambda>p. p < sum_list (recLen self)) (requested start count0 stride)))))
       \<and> (fst (Variable_getitem sel self start count0 stride) = []) =
           (snd (Variable_getitem sel self start count0 stride) = Inr EmptyList)"
proof -
  let ?a = "start ! 0" and ?c = "stride ! 0"
  let ?sl = "Slice ?a (?a + abs (count0 ! 0) * ?c) ?c"
  have sl: "axis0_slice start count0 stride = ?sl" by (simp add: axis0_slice_def)
  have c: "0 < ?c" using ok by (simp add: request_ok_def)
  have t: "touched (recLen self) ?sl = [] \<longleftrightarrow> slice_positions ?sl (sum_list (recLen self)) = []"
    using len c by (rule touched_Nil_iff)
  have p: "slice_positions ?sl (sum_list (recLen self)) =
           filter (\<lambda>p. p < sum_list (recLen self)) (requested start count0 stride)"
    unfolding requested_def using nonneg c by (intro slice_positions_clip) auto
  show ?thesis
    unfolding getitem_char [OF ok len] sl
    by (simp add: t p del: map_map)
qed

theorem getitem_clips_out_of_range_witness:
  "snd (Variable_getitem (\<lambda>sl x. x) ex_Variable [10] [4] [3]) = Inr (Array [10, 13])
   \<and> snd (Variable_getitem (\<lambda>sl x. x) ex_Variable [20] [5] [1]) = Inr EmptyList
   \<and> fst (Variable_getitem (\<lambda>sl x. x) ex_Variable [20] [5] [1]) = []"
proof -
  have len: "map (\<lambda>v. length (nc_records v)) (recVar ex_Variable) = recLen ex_Variable"
    by (simp add: ex_Variable_def ex_ncvar_def)
  have ok1: "request_ok [10] [4] [3]" and ok2: "request_ok [20] [5] [1]"
    by (simp_all add: request_ok_def)
  have k1: "filter (\<lambda>p. p < sum_list (recLen ex_Variable)) (requested [10] [4] [3]) = [10, 13]"
    by code_simp
  have k2: "filter (\<lambda>p. p < sum_list (recLen ex_Variable)) (requested [20] [5] [1]) = []"
    by code_simp
  have r1: "concat (map nc_records (recVar ex_Variable)) ! 10 = 10"
    "concat (map nc_records (recVar ex_Variable)) ! 13 = 13"
    by code_simp+
  from getitem_clips_out_of_range [OF ok1 len, of "\<lambda>sl x. x"]
       getitem_clips_out_of_range [OF ok2 len, of "\<lambda>sl x. x"]
  show ?thesis unfolding k1 k2 by (simp add: r1)
qed

section \<open>Opening the member files\<close>

lemma check_var_Inr:
  assumes "check_var master f part m = Inr vInst"
  shows "conforms part m"
proof -
  obtain v md ms mt where m: "m = (v, md, ms, mt)" by (cases m)
  from assms have facts:
    "map_of (nc_variables part) v = Some vInst" "nc_dimensions vInst \<noteq> []"
    "md = nc_dimensions vInst" "length ms = length (nc_shape vInst)"
    "drop 1 ms = drop 1 (nc_shape vInst)" "mt = nc_dtype vInst"
    by (simp_all add: check_var_def m Let_def split: option.splits if_splits)
  from assms facts obtain d where d: "map_of (nc_dims part) (nc_dimensions vInst ! 0) = Some d"
    by (cases "map_of (nc_dims part) (nc_dimensions vInst ! 0)") (simp_all add: check_var_def m)
  from assms facts d have "isunlimited d"
    by (simp add: check_var_def m split: if_splits)
  then show ?thesis using facts d by (simp add: conforms_def m)
qed


lemma check_vars_conforms:
  "check_vars master f part mrv rv = Inr rv' \<Longrightarrow> m \<in> set mrv \<Longrightarrow> conforms part m"
proof (induction mrv arbitrary: rv)
  case Nil
  then show ?case by simp
next
  case (Cons a mrv)
  from Cons.prems(1) obtain vInst where a: "check_var master f part a = Inr vInst"
    by (cases "check_var master f part a") simp_all
  with Cons.prems(1) have rec: "check_vars master f part mrv
       (map (\<lambda>(k, l). if k = fst a then (k, l @ [vInst]) else (k, l)) rv) = Inr rv'"
    by simp
  show ?case
  proof (cases "m = a")
    case True
    then show ?thesis using a by (simp add: check_var_Inr)
  next
    case False
    then have "m \<in> set mrv" using Cons.prems(2) by simp
    then show ?thesis using Cons.IH [OF rec] by simp
  qed
qed


lemma nc_open_None: "fs f = None \<Longrightarrow>
  nc_open fs f hs = (hs, Inl (PyErr ''RuntimeError'' ''No such file or directory'' [AStr f]))"
  by (simp add: nc_open_def)

lemma nc_open_Some: "fs f = Some d \<Longrightarrow> nc_open fs f hs = (hs @ [f], Inr d)"
  by (simp add: nc_open_def)

lemma open_parts_Inr:
  "open_parts fs master un mrv others (hs, cdfs, vlen, rv) = (hs', Inr (cdfs', vlen', rv')) \<Longrightarrow>
     hs' = hs @ others \<and> length cdfs' = length cdfs + length others
     \<and> (\<exists>ws. vlen' = vlen @ ws \<and>
           list_all2 (\<lambda>f n. \<exists>part d. fs f = Some part \<and> (un, d) \<in> set (nc_dims part) \<and> n = dimlen d)
             others ws)
     \<and> (\<forall>f\<in>set others. \<exists>part. fs f = Some part \<and> (\<forall>m\<in>set mrv. conforms part m))"
proof (induction others arbitrary: hs cdfs vlen rv)
  case Nil
  then show ?case by simp
next
  case (Cons f rest)
  from Cons.prems obtain part where p: "fs f = Some part"
    by (cases "fs f") (simp_all add: nc_open_None)
  from Cons.prems p obtain rv1 where c: "check_vars master f part mrv rv = Inr rv1"
    by (cases "check_vars master f part mrv rv") (simp_all add: nc_open_Some)
  from Cons.prems p c obtain d where d: "map_of (nc_dims part) un = Some d"
    by (cases "map_of (nc_dims part) un") (simp_all add: nc_open_Some)
  from Cons.prems p c d have rec:
    "open_parts fs master un mrv rest (hs @ [f], cdfs @ [part], vlen @ [dimlen d], rv1)
       = (hs', Inr (cdfs', vlen', rv'))"
    by (simp add: nc_open_Some)
  note ih = Cons.IH [OF rec]
  from ih obtain ws where ws: "vlen' = (vlen @ [dimlen d]) @ ws"
    "list_all2 (\<lambda>f n. \<exists>part d. fs f = Some part \<and> (un, d) \<in> set (nc_dims part) \<and> n = dimlen d) rest ws"
    by blast
  have dm: "(un, d) \<in> set (nc_dims part)" using d by (rule map_of_SomeD)
  have 1: "hs' = hs @ f # rest" using ih by simp
  have 2: "length cdfs' = length cdfs + length (f # rest)" using ih by simp
  have 3: "\<exists>ws'. vlen' = vlen @ ws' \<and>
           list_all2 (\<lambda>f n. \<exists>part d. fs f = Some part \<and> (un, d) \<in> set (nc_dims part) \<and> n = dimlen d)
             (f # rest) ws'"
    using ws p dm by (intro exI [of _ "dimlen d # ws"]) auto
  have 4: "\<forall>g\<in>set (f # rest). \<exists>part. fs g = Some part \<and> (\<forall>m\<in>set mrv. conforms part m)"
    using ih p check_vars_conforms [OF c] by auto
  from 1 2 3 4 show ?case by blast
qed


lemma fold_unlim:
  "fold (\<lambda>(dimname, dim) acc. if isunlimited dim then Some (dim, dimname) else acc) ds acc = Some (d, n)
   \<Longrightarrow> acc = Some (d, n) \<or> ((n, d) \<in> set ds \<and> isunlimited d)"
proof (induction ds arbitrary: acc)
  case Nil
  then show ?case by simp
next
  case (Cons a ds)
  obtain an ad where a: "a = (an, ad)" by (cases a)
  from Cons.prems have
    "fold (\<lambda>(dimname, dim) acc. if isunlimited dim then Some (dim, dimname) else acc) ds
       (if isunlimited ad then Some (ad, an) else acc) = Some (d, n)"
    by (simp add: a)
  from Cons.IH [OF this] show ?case by (auto simp: a split: if_splits)
qed

lemma find_unlim_Some:
  "find_unlim ds = Some (d, n) \<Longrightarrow> (n, d) \<in> set ds \<and> isunlimited d"
  unfolding find_unlim_def using fold_unlim [of ds None d n] by simp

lemma foldl_add_sum: "foldl (+) (x::nat) xs = x + sum_list xs"
  by (induction xs arbitrary: x) simp_all

lemma Dataset_init_members:
  assumes "fs master = Some cdfm" and "find_unlim (nc_dims cdfm) = Some (ud, un)"
    and "master_rec_vars un (nc_variables cdfm) \<noteq> []"
  shows "Dataset_init fs (master # others) =
     (case open_parts fs master un (master_rec_vars un (nc_variables cdfm)) others
             ([master], [cdfm], [dimlen ud],
              init_rv (nc_variables cdfm) (master_rec_vars un (nc_variables cdfm))) of
        (hs', Inl e) \<Rightarrow> (hs', Inl e)
      | (hs', Inr (cdf1, vlen, rv)) \<Rightarrow>
          (case vlen of
             [] \<Rightarrow> (hs', Inl (PyErr ''TypeError''
                      ''reduce() of empty sequence with no initial value'' []))
           | x # xs \<Rightarrow> (hs', Inr (attach (master # others) cdfm un cdf1 vlen (foldl (+) x xs) rv))))"
  using assms
  by (simp add: Dataset_init_def nc_open_def Let_def)

lemma Dataset_init_Inr:
  assumes r: "Dataset_init fs files = (hs, Inr ds)"
  obtains master others cdfm ud un cdfs vlen rv where
    "files = master # others" "fs master = Some cdfm"
    "find_unlim (nc_dims cdfm) = Some (ud, un)"
    "open_parts fs master un (master_rec_vars un (nc_variables cdfm)) others
       ([master], [cdfm], [dimlen ud],
        init_rv (nc_variables cdfm) (master_rec_vars un (nc_variables cdfm)))
     = (hs, Inr (cdfs, vlen, rv))"
    "vlen \<noteq> []"
    "ds = attach files cdfm un cdfs vlen (foldl (+) (hd vlen) (tl vlen)) rv"
proof -
  from r obtain master others where f: "files = master # others"
    by (cases files) (simp_all add: Dataset_init_def)
  from r f obtain cdfm where m: "fs master = Some cdfm"
    by (cases "fs master") (simp_all add: Dataset_init_def nc_open_def)
  from r f m obtain ud un where u: "find_unlim (nc_dims cdfm) = Some (ud, un)"
    by (cases "find_unlim (nc_dims cdfm)") (auto simp: Dataset_init_def nc_open_def)
  let ?mrv = "master_rec_vars un (nc_variables cdfm)"
  have ne: "?mrv \<noteq> []"
  proof
    assume "?mrv = []"
    then show False using r f m u by (simp add: Dataset_init_def nc_open_def)
  qed
  note eq = Dataset_init_members [where fs = fs and master = master and others = others, OF m u ne]
  obtain hs' res where op: "open_parts fs master un ?mrv others
       ([master], [cdfm], [dimlen ud], init_rv (nc_variables cdfm) ?mrv) = (hs', res)"
    by (cases "open_parts fs master un ?mrv others
       ([master], [cdfm], [dimlen ud], init_rv (nc_variables cdfm) ?mrv)")
  from r f eq op obtain cdfs vlen rv where res: "res = Inr (cdfs, vlen, rv)"
    by (cases res) auto
  from r f eq op res obtain x xs where v: "vlen = x # xs"
    by (cases vlen) auto
  from r f eq op res v have "hs' = hs" "ds = attach files cdfm un cdfs vlen (foldl (+) x xs) rv"
    by auto
  then show ?thesis using that [OF f m u] op res v by simp
qed


section \<open>Properties of opening\<close>

text \<open>
  C5: after a successful open the stored total is the sum of the per-file record
  counts, there is one count per member file, in file order, each the length of the
  record dimension of its file, and the virtual dimension reports that sum.
  \<open>Dimension_len\<close> reads the stored total and changes nothing, so asking again gives
  the same answer.
\<close>

theorem open_record_counts:
  assumes r: "Dataset_init fs files = (hs, Inr ds)"
  shows "cdfTLen ds = sum_list (cdfVLen ds)
       \<and> length (cdfVLen ds) = length files
       \<and> length (cdf ds) = length files
       \<and> (\<exists>un. list_all2 (\<lambda>f n. \<exists>file d. fs f = Some file \<and> (un, d) \<in> set (nc_dims file)
                                     \<and> n = dimlen d) files (cdfVLen ds))
       \<and> (\<exists>name d. (name, VirtualDim d) \<in> set (dims ds))
       \<and> (\<forall>name d. (name, VirtualDim d) \<in> set (dims ds) \<longrightarrow>
             Dimension_len d = sum_list (cdfVLen ds) \<and> dimlens d = cdfVLen ds)"
proof -
  from r obtain master others cdfm ud un cdfs vlen rv where
    f: "files = master # others" and m: "fs master = Some cdfm"
    and u: "find_unlim (nc_dims cdfm) = Some (ud, un)"
    and op: "open_parts fs master un (master_rec_vars un (nc_variables cdfm)) others
       ([master], [cdfm], [dimlen ud],
        init_rv (nc_variables cdfm) (master_rec_vars un (nc_variables cdfm)))
     = (hs, Inr (cdfs, vlen, rv))"
    and ne: "vlen \<noteq> []"
    and ds: "ds = attach files cdfm un cdfs vlen (foldl (+) (hd vlen) (tl vlen)) rv"
    by (rule Dataset_init_Inr)
  note o = open_parts_Inr [OF op]
  from o obtain ws where ws: "vlen = [dimlen ud] @ ws"
    "list_all2 (\<lambda>f n. \<exists>part d. fs f = Some part \<and> (un, d) \<in> set (nc_dims part) \<and> n = dimlen d)
       others ws"
    by blast
  have ud: "(un, ud) \<in> set (nc_dims cdfm)" "isunlimited ud"
    using find_unlim_Some [OF u] by simp_all
  have v: "cdfVLen ds = vlen" and t: "cdfTLen ds = foldl (+) (hd vlen) (tl vlen)"
    and c: "cdf ds = cdfs"
    by (simp_all add: ds attach_def)
  have 1: "cdfTLen ds = sum_list (cdfVLen ds)"
    using ne by (cases vlen) (simp_all add: v t foldl_add_sum)
  have 2: "length (cdfVLen ds) = length files"
    using ws list_all2_lengthD [OF ws(2)] by (simp add: v f)
  have 3: "length (cdf ds) = length files" using o by (simp add: c f)
  have 4: "list_all2 (\<lambda>f n. \<exists>file d. fs f = Some file \<and> (un, d) \<in> set (nc_dims file) \<and> n = dimlen d)
             files (cdfVLen ds)"
    using ws m ud by (auto simp: v f)
  have dm: "dims ds = map (\<lambda>(dimname, dim).
                   if isunlimited dim
                   then (dimname, VirtualDim (Dimension_init (cdfVLen ds) (cdfTLen ds)))
                   else (dimname, PlainDim dim)) (nc_dims cdfm)"
    unfolding v t by (simp add: ds attach_def)
  have 5: "(un, VirtualDim (Dimension_init (cdfVLen ds) (cdfTLen ds))) \<in> set (dims ds)"
    unfolding dm using ud by (force simp: image_iff)
  have 6: "\<forall>name d. (name, VirtualDim d) \<in> set (dims ds) \<longrightarrow>
             Dimension_len d = sum_list (cdfVLen ds) \<and> dimlens d = cdfVLen ds"
    unfolding dm using 1 by (auto simp: Dimension_len_def Dimension_init_def split: if_splits)
  from 1 2 3 4 5 6 show ?thesis by blast
qed

theorem open_record_counts_witness:
  "cdfVLen (projr (snd (Dataset_init ex_fs [''a'', ''b'', ''c'']))) = [5, 7, 3]
   \<and> cdfTLen (projr (snd (Dataset_init ex_fs [''a'', ''b'', ''c'']))) = 15
   \<and> length (cdf (projr (snd (Dataset_init ex_fs [''a'', ''b'', ''c''])))) = 3"
proof -
  let ?r = "Dataset_init ex_fs [''a'', ''b'', ''c'']"
  have i: "\<not> isl (snd ?r)" by code_simp
  have v: "cdfVLen (projr (snd ?r)) = [5, 7, 3]" by code_simp
  from i have e: "?r = (fst ?r, Inr (projr (snd ?r)))"
    by (metis prod.collapse sum.collapse(2))
  from open_record_counts [OF e] show ?thesis using v by simp
qed







section \<open>Negative strides\<close>

lemma list_ex_nth: "n < length xs \<Longrightarrow> P (xs ! n) \<Longrightarrow> list_ex P xs"
  by (auto simp: list_ex_iff)



text \<open>
  C9: a negative stride on any axis raises \<open>IndexError\<close> before any read is issued.
\<close>

theorem getitem_negative_stride_any_axis:
  assumes "n < length stride" and "stride ! n < 0"
  shows "Variable_getitem sel self start count0 stride =
           ([], Inl (PyErr ''IndexError''
              ''negative strides not allowed when slicing MFVariable Variable instance'' []))"
proof -
  from assms have "list_ex (\<lambda>s. s < 0) stride" by (rule list_ex_nth)
  then show ?thesis by (simp add: Variable_getitem_def)
qed

theorem getitem_negative_stride_any_axis_witness:
  "Variable_getitem (\<lambda>sl x. x) ex_Variable [0, 4] [15, 5] [1, - 1] =
     ([], Inl (PyErr ''IndexError''
        ''negative strides not allowed when slicing MFVariable Variable instance'' []))"
  using getitem_negative_stride_any_axis [of 1 "[1, - 1]" "\<lambda>sl x. x" ex_Variable "[0, 4]" "[15, 5]"]
  by simp

section \<open>The empty file list\<close>

text \<open>
  C7 as amended: with an empty file list \<open>cdfFiles[0]\<close> raises Python's \<open>IndexError\<close>
  before any file is opened.
\<close>

theorem open_empty_file_list:
  "Dataset_init fs [] = ([], Inl (PyErr ''IndexError'' ''list index out of range'' []))"
  by (simp add: Dataset_init_def)

text \<open>C7 as stated fails: the error is not an \<open>EmptyFileListError\<close>.\<close>

theorem open_empty_file_list_counterexample:
  "\<not> (\<exists>msg args. snd (Dataset_init (\<lambda>f. None :: nat ncfile option) []) =
          Inl (PyErr ''EmptyFileListError'' msg args))"
  by (simp add: Dataset_init_def)

section \<open>The length of the virtual dimension\<close>

text \<open>
  C8 as amended: \<open>__len__\<close> returns the total stored by the constructor, whatever the
  list of per-file counts holds afterwards, and \<open>isunlimited\<close> is always true.
\<close>

theorem Dimension_len_stored:
  "Dimension_len (Dimension_init dl tot) = tot
   \<and> Dimension_len (d\<lparr>dimlens := cs\<rparr>) = Dimension_len d
   \<and> Dimension_isunlimited d"
  by (simp add: Dimension_len_def Dimension_init_def Dimension_isunlimited_def)

text \<open>
  C8 as stated fails: after the counts \<open>[5, 7, 3]\<close> have become \<open>[5, 7, 4]\<close> the length
  is still 15, not the sum of the current counts.
\<close>

theorem Dimension_len_counterexample:
  "Dimension_len ((Dimension_init [5, 7, 3] 15)\<lparr>dimlens := [5, 7, 4]\<rparr>) = 15
   \<and> Dimension_len ((Dimension_init [5, 7, 3] 15)\<lparr>dimlens := [5, 7, 4]\<rparr>)
       \<noteq> sum_list (dimlens ((Dimension_init [5, 7, 3] 15)\<lparr>dimlens := [5, 7, 4]\<rparr>))"
  by (simp add: Dimension_len_def Dimension_init_def)

end
